theory Spec2Isabelle
  imports Complex_Main
begin

section \<open>Constants and data of utilisation.c\<close>

text \<open>
  The preprocessor constants of the program: the size of every character buffer
  (\<^verbatim>\<open>#define MAX_STRING 64\<close>), the size of the reading array
  (\<^verbatim>\<open>#define MAX_INPUT_VALUES 255\<close>) and the trigger level
  (\<^verbatim>\<open>#define DFLT_TRIGGER_LEVEL 10.0\<close>).
\<close>

definition MAX_STRING :: nat where
  "MAX_STRING = 64"

definition MAX_INPUT_VALUES :: nat where
  "MAX_INPUT_VALUES = 255"

text \<open>
  A C \<^verbatim>\<open>double\<close> is a binary64 number of IEEE 754. The special values are
  constructors of their own, so that a division by zero is a value of the model and not
  the \<open>0\<close> of HOL. A finite value is the real number it stands for; every operation
  and conversion below delivers its result through \<open>to_double\<close>, rounded to the
  nearest binary64 number. The sign of zero is not represented.
\<close>

datatype double = Finite real | PInf | NInf | NaN

text \<open>
  Rounding to binary64, to nearest with ties to even. \<open>bit_length n\<close> is the number of
  binary digits of \<open>n\<close>, \<open>pow2 e\<close> is \<open>2\<close> to the power \<open>e\<close>, and \<open>flog2 a\<close> is
  the exponent of the positive number \<open>a\<close>: the largest \<open>e\<close> with \<open>pow2 e \<le> a\<close>.
  \<open>ulp x\<close> is the distance between neighbouring binary64 numbers at \<open>x\<close>: 52 binary
  places below the exponent of \<open>x\<close>, and never below the exponent -1074 of the
  subnormal numbers. \<open>round64 x\<close> is the multiple of \<open>ulp x\<close> nearest to \<open>x\<close>, and
  \<open>to_double\<close> turns a rounded value of magnitude \<open>2 ^ 1024\<close> or more into an infinity.
\<close>

function bit_length :: "int \<Rightarrow> nat" where
  "bit_length n = (if n \<le> 0 then 0 else Suc (bit_length (n div 2)))"
  by pat_completeness auto
termination
  by (relation "measure nat") auto

declare bit_length.simps [simp del]

definition pow2 :: "int \<Rightarrow> real" where
  "pow2 e = (if 0 \<le> e then 2 ^ nat e else 1 / 2 ^ nat (- e))"

definition flog2 :: "real \<Rightarrow> int" where
  "flog2 a =
     (if 1 \<le> a then int (bit_length \<lfloor>a\<rfloor>) - 1
      else - int (bit_length (\<lceil>1 / a\<rceil> - 1)))"

definition round_half_even :: "real \<Rightarrow> int" where
  "round_half_even q =
     (let f = \<lfloor>q\<rfloor>; r = q - of_int f in
      if r < 1 / 2 then f else if 1 / 2 < r then f + 1 else if even f then f else f + 1)"

definition ulp :: "real \<Rightarrow> real" where
  "ulp x = pow2 (max (flog2 \<bar>x\<bar>) (- 1022) - 52)"

definition round64 :: "real \<Rightarrow> real" where
  "round64 x = (if x = 0 then 0 else of_int (round_half_even (x / ulp x)) * ulp x)"

definition to_double :: "real \<Rightarrow> double" where
  "to_double x =
     (let y = round64 x in
      if 2 ^ 1024 \<le> \<bar>y\<bar> then (if 0 < x then PInf else NInf) else Finite y)"

definition DFLT_TRIGGER_LEVEL :: double where
  "DFLT_TRIGGER_LEVEL = Finite 10"

text \<open>The comparison \<^verbatim>\<open>a >= b\<close> on doubles: false as soon as one side is a NaN.\<close>

fun dge :: "double \<Rightarrow> double \<Rightarrow> bool" where
  "dge NaN _ = False"
| "dge _ NaN = False"
| "dge (Finite a) (Finite b) = (b \<le> a)"
| "dge PInf _ = True"
| "dge _ NInf = True"
| "dge (Finite _) PInf = False"
| "dge NInf (Finite _) = False"
| "dge NInf PInf = False"

text \<open>
  The conversion \<^verbatim>\<open>(double)i\<close> of an \<^verbatim>\<open>int\<close>: exact, since every value of the 32
  bits of an \<^verbatim>\<open>int\<close> is a binary64 number.
\<close>

definition double_of_int :: "int \<Rightarrow> double" where
  "double_of_int i = Finite (of_int i)"

text \<open>
  The division \<^verbatim>\<open>a / b\<close> on doubles: the quotient, rounded. A zero divisor gives NaN
  for a zero dividend and an infinity otherwise; the zero divisor of the program is
  always the conversion of the integer 0, hence a positive zero.
\<close>

fun ddiv :: "double \<Rightarrow> double \<Rightarrow> double" where
  "ddiv NaN _ = NaN"
| "ddiv _ NaN = NaN"
| "ddiv (Finite a) (Finite b) =
     (if b = 0 then (if a = 0 then NaN else if 0 < a then PInf else NInf)
      else to_double (a / b))"
| "ddiv (Finite _) PInf = Finite 0"
| "ddiv (Finite _) NInf = Finite 0"
| "ddiv PInf (Finite b) = (if 0 \<le> b then PInf else NInf)"
| "ddiv NInf (Finite b) = (if 0 \<le> b then NInf else PInf)"
| "ddiv PInf PInf = NaN"
| "ddiv PInf NInf = NaN"
| "ddiv NInf PInf = NaN"
| "ddiv NInf NInf = NaN"

text \<open>
  The product \<^verbatim>\<open>a * b\<close> on doubles: the product, rounded; zero times an infinity is
  a NaN.
\<close>

fun dmul :: "double \<Rightarrow> double \<Rightarrow> double" where
  "dmul NaN _ = NaN"
| "dmul _ NaN = NaN"
| "dmul (Finite a) (Finite b) = to_double (a * b)"
| "dmul (Finite a) PInf = (if a = 0 then NaN else if 0 < a then PInf else NInf)"
| "dmul (Finite a) NInf = (if a = 0 then NaN else if 0 < a then NInf else PInf)"
| "dmul PInf (Finite b) = (if b = 0 then NaN else if 0 < b then PInf else NInf)"
| "dmul NInf (Finite b) = (if b = 0 then NaN else if 0 < b then NInf else PInf)"
| "dmul PInf PInf = PInf"
| "dmul PInf NInf = NInf"
| "dmul NInf PInf = NInf"
| "dmul NInf NInf = PInf"

text \<open>
  \<^verbatim>\<open>struct STR_INPUT_DATA\<close>: the count and the array of readings. The array has
  \<open>MAX_INPUT_VALUES\<close> elements; \<open>wf_data\<close> says so of the list that models it.
\<close>

record INPUT_DATA =
  iCount :: int
  fInVibration :: "double list"

definition wf_data :: "INPUT_DATA \<Rightarrow> bool" where
  "wf_data d = (length (fInVibration d) = MAX_INPUT_VALUES)"

text \<open>
  What C leaves undefined is a result of the model, never a value picked by HOL: an
  access outside the reading array, outside a character buffer, or through a null
  pointer ends the run with one of these.
\<close>

datatype undefined_behaviour =
    Array_Read_Outside int
  | Array_Write_Outside int
  | Array_Pointer_Outside int
  | String_Read_Outside
  | String_Write_Outside nat
  | Null_String
  | Null_Stream

section \<open>The utilisation calculation\<close>

text \<open>
  The scan of \<^verbatim>\<open>dCalculatePercentageUsage\<close>:
  \<^verbatim>\<open>for(i = 0; i < pInputData->iCount; i++) if(fInVibration[i] >= dTriggerLevel) iTriggered++;\<close>
  with the loop variable and the counter as arguments.
\<close>

function scan_loop :: "INPUT_DATA \<Rightarrow> double \<Rightarrow> int \<Rightarrow> int \<Rightarrow> undefined_behaviour + int" where
  "scan_loop d dTriggerLevel i iTriggered =
     (if i < iCount d then
        (if i < 0 \<or> int MAX_INPUT_VALUES \<le> i then Inl (Array_Read_Outside i)
         else scan_loop d dTriggerLevel (i + 1)
                (if dge (fInVibration d ! nat i) dTriggerLevel then iTriggered + 1
                 else iTriggered))
      else Inr iTriggered)"
  by pat_completeness auto
termination
  by (relation "measure (\<lambda>(d, t, i, n). nat (iCount d - i))") auto

declare scan_loop.simps [simp del]

text \<open>
  \<^verbatim>\<open>dPercentageUsage = 100.0*(((double)iTriggered)/pInputData->iCount++);\<close>
  The function returns the percentage; the structure it was given a pointer to is
  returned with it, as the call leaves it.
\<close>

definition dCalculatePercentageUsage ::
  "INPUT_DATA \<Rightarrow> double \<Rightarrow> undefined_behaviour + (double \<times> INPUT_DATA)" where
  "dCalculatePercentageUsage d dTriggerLevel =
     (case scan_loop d dTriggerLevel 0 0 of
        Inl u \<Rightarrow> Inl u
      | Inr iTriggered \<Rightarrow>
          Inr (dmul (Finite 100)
                 (ddiv (double_of_int iTriggered) (double_of_int (iCount d))),
               d\<lparr>iCount := iCount d + 1\<rparr>))"

text \<open>The number of readings among the first \<open>n\<close> that reach the trigger level.\<close>

definition triggered_count :: "double list \<Rightarrow> nat \<Rightarrow> double \<Rightarrow> nat" where
  "triggered_count xs n t = length (filter (\<lambda>x. dge x t) (take n xs))"

section \<open>Strings and the in-place reversal\<close>

text \<open>
  A C \<^verbatim>\<open>char\<close> is a HOL \<open>char\<close>, eight bits. The operator \<^verbatim>\<open>^\<close> on two of them is
  the exclusive or of each pair of bits (the promotion to \<^verbatim>\<open>int\<close> and the conversion
  back keep the low eight bits).
\<close>

definition xor_char :: "char \<Rightarrow> char \<Rightarrow> char" where
  "xor_char a b =
     Char (digit0 a \<noteq> digit0 b) (digit1 a \<noteq> digit1 b) (digit2 a \<noteq> digit2 b)
          (digit3 a \<noteq> digit3 b) (digit4 a \<noteq> digit4 b) (digit5 a \<noteq> digit5 b)
          (digit6 a \<noteq> digit6 b) (digit7 a \<noteq> digit7 b)"

definition NUL :: char where
  "NUL = CHR 0x00"

text \<open>
  A \<^verbatim>\<open>char *\<close> is \<open>None\<close> for the null pointer and otherwise the array it points
  into, from the character pointed at to the end of the array. \<^verbatim>\<open>strlen\<close> walks to the
  first NUL; an array without one is read past its end.
\<close>

definition strlen :: "string \<Rightarrow> undefined_behaviour + nat" where
  "strlen buf =
     (if NUL \<in> set buf then Inr (length (takeWhile (\<lambda>c. c \<noteq> NUL) buf))
      else Inl String_Read_Outside)"

text \<open>
  The loop body of \<^verbatim>\<open>strrev\<close>, three assignments, each reading the array as the
  previous one left it:
  \<^verbatim>\<open>*p1 ^= *p2; *p2 ^= *p1; *p1 ^= *p2;\<close>
\<close>

definition xor_swap :: "string \<Rightarrow> nat \<Rightarrow> nat \<Rightarrow> string" where
  "xor_swap s p1 p2 =
     (let s1 = s[p1 := xor_char (s ! p1) (s ! p2)];
          s2 = s1[p2 := xor_char (s1 ! p2) (s1 ! p1)];
          s3 = s2[p1 := xor_char (s2 ! p1) (s2 ! p2)]
      in s3)"

text \<open>
  \<^verbatim>\<open>for (p1 = str, p2 = str + strlen(str) - 1; p2 > p1; ++p1, --p2)\<close>
  with the two pointers as offsets from \<^verbatim>\<open>str\<close>. The decrement is applied to a
  \<open>p2\<close> above \<open>p1\<close> only, so the subtraction on \<open>nat\<close> never truncates.
\<close>

function strrev_loop :: "nat \<Rightarrow> nat \<Rightarrow> string \<Rightarrow> string" where
  "strrev_loop p1 p2 s =
     (if p1 < p2 then strrev_loop (p1 + 1) (p2 - 1) (xor_swap s p1 p2) else s)"
  by pat_completeness auto
termination
  by (relation "measure (\<lambda>(p1, p2, s). p2 - p1)") auto

declare strrev_loop.simps [simp del]

text \<open>
  \<^verbatim>\<open>if (! str || ! *str) return str;\<close> then the loop. The result is the pointer
  returned, with the array as the call leaves it.
\<close>

definition strrev :: "string option \<Rightarrow> undefined_behaviour + string option" where
  "strrev str =
     (case str of
        None \<Rightarrow> Inr None
      | Some buf \<Rightarrow>
          (case buf of
             [] \<Rightarrow> Inl String_Read_Outside
           | c # _ \<Rightarrow>
               if c = NUL then Inr (Some buf)
               else (case strlen buf of
                       Inl u \<Rightarrow> Inl u
                     | Inr n \<Rightarrow> Inr (Some (strrev_loop 0 (n - 1) buf)))))"

text \<open>
  The same control flow, recording instead of performing: the pairs of offsets at which
  the loop swaps, in order.
\<close>

function strrev_loop_swaps :: "nat \<Rightarrow> nat \<Rightarrow> (nat \<times> nat) list" where
  "strrev_loop_swaps p1 p2 =
     (if p1 < p2 then (p1, p2) # strrev_loop_swaps (p1 + 1) (p2 - 1) else [])"
  by pat_completeness auto
termination
  by (relation "measure (\<lambda>(p1, p2). p2 - p1)") auto

declare strrev_loop_swaps.simps [simp del]

definition strrev_swaps :: "string option \<Rightarrow> (nat \<times> nat) list" where
  "strrev_swaps str =
     (case str of
        None \<Rightarrow> []
      | Some buf \<Rightarrow>
          (case buf of
             [] \<Rightarrow> []
           | c # _ \<Rightarrow>
               if c = NUL then []
               else (case strlen buf of
                       Inl u \<Rightarrow> []
                     | Inr n \<Rightarrow> strrev_loop_swaps 0 (n - 1))))"

text \<open>
  The reversal the usual way, for comparison: the same loop, exchanging the two
  characters through a temporary variable.
\<close>

definition tmp_swap :: "string \<Rightarrow> nat \<Rightarrow> nat \<Rightarrow> string" where
  "tmp_swap s p1 p2 = (let tmp = s ! p1; s1 = s[p1 := s ! p2] in s1[p2 := tmp])"

function naive_loop :: "nat \<Rightarrow> nat \<Rightarrow> string \<Rightarrow> string" where
  "naive_loop p1 p2 s =
     (if p1 < p2 then naive_loop (p1 + 1) (p2 - 1) (tmp_swap s p1 p2) else s)"
  by pat_completeness auto
termination
  by (relation "measure (\<lambda>(p1, p2, s). p2 - p1)") auto

declare naive_loop.simps [simp del]

definition naive_strrev :: "string option \<Rightarrow> undefined_behaviour + string option" where
  "naive_strrev str =
     (case str of
        None \<Rightarrow> Inr None
      | Some buf \<Rightarrow>
          (case buf of
             [] \<Rightarrow> Inl String_Read_Outside
           | c # _ \<Rightarrow>
               if c = NUL then Inr (Some buf)
               else (case strlen buf of
                       Inl u \<Rightarrow> Inl u
                     | Inr n \<Rightarrow> Inr (Some (naive_loop 0 (n - 1) buf)))))"

text \<open>The string a buffer holds: its characters before the first NUL.\<close>

definition c_string :: "string \<Rightarrow> string" where
  "c_string buf = takeWhile (\<lambda>c. c \<noteq> NUL) buf"

section \<open>Reading the input file\<close>

text \<open>
  \<^verbatim>\<open>fscanf(pInFile, "%s", sTmp)\<close> on an input that still holds the token \<open>tok\<close>: the
  characters of the token and a terminating NUL are written from the start of the
  buffer, however long the token is. (At the end of the input the call returns
  \<^verbatim>\<open>EOF\<close> and the loop of \<^verbatim>\<open>main\<close> stops; the input file is the list of its
  tokens.)
\<close>

definition fscanf_s :: "string \<Rightarrow> string \<Rightarrow> undefined_behaviour + string" where
  "fscanf_s buf tok =
     (if length tok + 1 \<le> length buf
      then Inr (tok @ NUL # drop (length tok + 1) buf)
      else Inl (String_Write_Outside (length tok + 1)))"

text \<open>
  The conversion \<^verbatim>\<open>sscanf(s, "%lf", p)\<close> belongs to the C library. The functions of
  this section take it as the argument \<open>scan\<close>: \<open>scan s = Some v\<close> when the call
  converts (it stores \<open>v\<close> through \<open>p\<close>), \<open>None\<close> when it does not (nothing is
  stored). Its return value is not used by the program.

  \<^verbatim>\<open>sscanf(..., "%lf", &_InputData.fInVibration[_InputData.iCount++])\<close>: the
  argument is the address of the element at the old count, and the count is incremented
  before the call. An address outside the array and its end is undefined, and so is a
  store outside the array.
\<close>

definition store_scanned :: "INPUT_DATA \<Rightarrow> double option \<Rightarrow> undefined_behaviour + INPUT_DATA" where
  "store_scanned d r =
     (let i = iCount d; d' = d\<lparr>iCount := iCount d + 1\<rparr> in
      if i < 0 \<or> int MAX_INPUT_VALUES < i then Inl (Array_Pointer_Outside i)
      else (case r of
              None \<Rightarrow> Inr d'
            | Some v \<Rightarrow>
                if i < int MAX_INPUT_VALUES
                then Inr (d'\<lparr>fInVibration := (fInVibration d')[nat i := v]\<rparr>)
                else Inl (Array_Write_Outside i)))"

text \<open>
  One round of the loop, for the token \<open>tok\<close>:
  \<^verbatim>\<open>while( EOF != fscanf(pInFile, "%s", sTmp) ) {
    sscanf(strrev(sTmp), "%lf", &_InputData.fInVibration[_InputData.iCount++]); }\<close>
  The state is the buffer \<^verbatim>\<open>sTmp\<close> and the global \<^verbatim>\<open>_InputData\<close>.
\<close>

definition read_value ::
  "(string \<Rightarrow> double option) \<Rightarrow> string \<times> INPUT_DATA \<Rightarrow> string
     \<Rightarrow> undefined_behaviour + (string \<times> INPUT_DATA)" where
  "read_value scan st tok =
     (case fscanf_s (fst st) tok of
        Inl u \<Rightarrow> Inl u
      | Inr sTmp1 \<Rightarrow>
          (case strrev (Some sTmp1) of
             Inl u \<Rightarrow> Inl u
           | Inr None \<Rightarrow> Inl Null_String
           | Inr (Some sTmp2) \<Rightarrow>
               (case store_scanned (snd st) (scan (c_string sTmp2)) of
                  Inl u \<Rightarrow> Inl u
                | Inr d' \<Rightarrow> Inr (sTmp2, d'))))"

fun read_values ::
  "(string \<Rightarrow> double option) \<Rightarrow> string \<times> INPUT_DATA \<Rightarrow> string list
     \<Rightarrow> undefined_behaviour + (string \<times> INPUT_DATA)" where
  "read_values scan st [] = Inr st"
| "read_values scan st (tok # toks) =
     (case read_value scan st tok of
        Inl u \<Rightarrow> Inl u
      | Inr st' \<Rightarrow> read_values scan st' toks)"

subsection \<open>The conversion of the C library\<close>

text \<open>
  The conversion \<open>%lf\<close> on decimal input, read the way \<^verbatim>\<open>strtod\<close> reads it: white
  space is skipped, then the longest leading part of the form sign, digits with at most
  one point, exponent is converted, and the first character that does not continue
  this form ends the conversion. At least one digit is needed, and an exponent counts
  only when it has a digit. The decimal value is rounded to the nearest double. The
  hexadecimal form and the words for infinity and NaN are not covered. This function is used at concrete strings only; the general statements
  hold for every \<open>scan\<close>.
\<close>

definition is_space :: "char \<Rightarrow> bool" where
  "is_space c = (c \<in> set [CHR '' '', CHR 0x09, CHR 0x0A, CHR 0x0B, CHR 0x0C, CHR 0x0D])"

definition is_digit :: "char \<Rightarrow> bool" where
  "is_digit c = (c \<in> set ''0123456789'')"

definition digit_val :: "char \<Rightarrow> nat" where
  "digit_val c = of_char c - 48"

definition digits_val :: "string \<Rightarrow> nat" where
  "digits_val ds = foldl (\<lambda>n c. 10 * n + digit_val c) 0 ds"

fun take_sign :: "string \<Rightarrow> bool \<times> string" where
  "take_sign [] = (False, [])"
| "take_sign (c # r) =
     (if c = CHR ''-'' then (True, r) else if c = CHR ''+'' then (False, r)
      else (False, c # r))"

fun take_fraction :: "string \<Rightarrow> string \<times> string" where
  "take_fraction [] = ([], [])"
| "take_fraction (c # r) =
     (if c = CHR ''.'' then (takeWhile is_digit r, dropWhile is_digit r) else ([], c # r))"

fun take_exponent :: "string \<Rightarrow> int" where
  "take_exponent [] = 0"
| "take_exponent (c # r) =
     (if c = CHR ''e'' \<or> c = CHR ''E'' then
        (let (neg, r') = take_sign r; ds = takeWhile is_digit r' in
         if ds = [] then 0
         else if neg then - int (digits_val ds) else int (digits_val ds))
      else 0)"

definition scale10 :: "real \<Rightarrow> int \<Rightarrow> real" where
  "scale10 x e = (if 0 \<le> e then x * 10 ^ nat e else x / 10 ^ nat (- e))"

definition sscanf_lf :: "string \<Rightarrow> double option" where
  "sscanf_lf s =
     (let (neg, s1) = take_sign (dropWhile is_space s);
          ip = takeWhile is_digit s1;
          (fp, s2) = take_fraction (dropWhile is_digit s1);
          m = real (digits_val ip) + real (digits_val fp) / 10 ^ length fp
      in if ip = [] \<and> fp = [] then None
         else Some (to_double (scale10 (if neg then - m else m) (take_exponent s2))))"

section \<open>The program\<close>

text \<open>
  What a run leaves behind: the value \<^verbatim>\<open>main\<close> returns and the number written to
  the output file, if one was written.
\<close>

record run =
  exit_code :: int
  results_txt :: "double option"

text \<open>
  \<^verbatim>\<open>main\<close>. The arguments are what the run meets: the content \<^verbatim>\<open>sTmp\<close> has at
  entry (indeterminate, \<open>MAX_STRING\<close> characters), the tokens of the input file or
  \<open>None\<close> when \<^verbatim>\<open>fopen\<close> returns a null pointer for it, and whether \<^verbatim>\<open>fopen\<close>
  succeeds for the output file. Both tests after the two calls of \<^verbatim>\<open>fopen\<close> read
  \<^verbatim>\<open>if(!pInFile)\<close>. The array is cleared by \<^verbatim>\<open>memset\<close> before the loop and the
  trigger level is \<open>DFLT_TRIGGER_LEVEL\<close>. The messages on the terminal are left out; the loop that
  prints the readings reads the elements the calculation reads after it.
\<close>

definition main ::
  "(string \<Rightarrow> double option) \<Rightarrow> (nat \<Rightarrow> char) \<Rightarrow> string list option \<Rightarrow> bool
     \<Rightarrow> undefined_behaviour + run" where
  "main scan sTmp_entry pInFile pOutFile_opens =
     (case pInFile of
        None \<Rightarrow> Inr \<lparr>exit_code = - 1, results_txt = None\<rparr>
      | Some tokens \<Rightarrow>
          if pInFile = None then Inr \<lparr>exit_code = - 1, results_txt = None\<rparr>
          else
            (case read_values scan
                    (map sTmp_entry [0..<MAX_STRING],
                     \<lparr>iCount = 0, fInVibration = replicate MAX_INPUT_VALUES (Finite 0)\<rparr>)
                    tokens of
               Inl u \<Rightarrow> Inl u
             | Inr st \<Rightarrow>
                 (case dCalculatePercentageUsage (snd st) DFLT_TRIGGER_LEVEL of
                    Inl u \<Rightarrow> Inl u
                  | Inr (dPercentageUsage, d') \<Rightarrow>
                      if pOutFile_opens
                      then Inr \<lparr>exit_code = 0, results_txt = Some dPercentageUsage\<rparr>
                      else Inl Null_Stream)))"

section \<open>Observations and sample inputs\<close>

text \<open>The value a call of the calculation returns, and the structure after the call.\<close>

definition usage_returned :: "INPUT_DATA \<Rightarrow> double \<Rightarrow> undefined_behaviour + double" where
  "usage_returned d t = map_sum id fst (dCalculatePercentageUsage d t)"

definition data_after_usage :: "INPUT_DATA \<Rightarrow> double \<Rightarrow> undefined_behaviour + INPUT_DATA" where
  "data_after_usage d t = map_sum id snd (dCalculatePercentageUsage d t)"

text \<open>Two calls of \<^verbatim>\<open>strrev\<close> in a row, the second on the pointer the first returns.\<close>

definition strrev_twice :: "string option \<Rightarrow> undefined_behaviour + string option" where
  "strrev_twice str = (case strrev str of Inl u \<Rightarrow> Inl u | Inr p \<Rightarrow> strrev p)"

text \<open>
  The structure as \<^verbatim>\<open>main\<close> has it before the first token, with one reading, with the
  three readings 10.0, 9.9, 10.0, with the four readings 20.0, 10.0, 9.9, 0.5, and
  with every element in use. The reading 9.9 is the double nearest to 99/10.
\<close>

definition empty_data :: INPUT_DATA where
  "empty_data = \<lparr>iCount = 0, fInVibration = replicate MAX_INPUT_VALUES (Finite 0)\<rparr>"

definition one_reading :: INPUT_DATA where
  "one_reading = \<lparr>iCount = 1, fInVibration = Finite 10 # replicate 254 (Finite 0)\<rparr>"

definition three_readings :: INPUT_DATA where
  "three_readings =
     \<lparr>iCount = 3,
      fInVibration = [Finite 10, to_double (99 / 10), Finite 10] @ replicate 252 (Finite 0)\<rparr>"


definition full_data :: INPUT_DATA where
  "full_data = \<lparr>iCount = 255, fInVibration = replicate MAX_INPUT_VALUES (Finite 1)\<rparr>"

section \<open>Rounding to binary64\<close>

lemmas to_double_eval =
  to_double_def round64_def ulp_def flog2_def bit_length.simps pow2_def round_half_even_def Let_def



lemma pow2_pos [simp]: "0 < pow2 e"
  by (simp add: pow2_def)













lemma round64_zero [simp]: "round64 0 = 0"
  by (simp add: round64_def)






lemma to_double_values:
  "to_double 0 = Finite 0" "to_double 1 = Finite 1" "to_double 5 = Finite 5"
  "to_double 15 = Finite 15" "to_double 20 = Finite 20" "to_double 50 = Finite 50"
  "to_double 100 = Finite 100" "to_double (1 / 2) = Finite (1 / 2)"
  by (simp_all add: to_double_eval)

section \<open>The scan counts the readings at or above the trigger level\<close>

lemma scan_loop_count:
  assumes "0 \<le> i" "i \<le> iCount d" "iCount d \<le> int MAX_INPUT_VALUES" "wf_data d"
  shows "scan_loop d t i n =
     Inr (n + int (length (filter (\<lambda>x. dge x t)
            (drop (nat i) (take (nat (iCount d)) (fInVibration d))))))"
  using assms
proof (induction d t i n rule: scan_loop.induct)
  case (1 d t i n)
  show ?case
  proof (cases "i < iCount d")
    case False
    with "1.prems" have "i = iCount d" by simp
    then show ?thesis by (simp add: scan_loop.simps)
  next
    case True
    with "1.prems" have inb: "\<not> (i < 0 \<or> int MAX_INPUT_VALUES \<le> i)" by simp
    have len: "nat i < length (take (nat (iCount d)) (fInVibration d))"
      using True "1.prems" by (simp add: wf_data_def)
    have step: "drop (nat i) (take (nat (iCount d)) (fInVibration d)) =
       fInVibration d ! nat i # drop (nat (i + 1)) (take (nat (iCount d)) (fInVibration d))"
      using len "1.prems"(1) by (simp add: Cons_nth_drop_Suc [symmetric] nat_add_distrib)
    have ih: "scan_loop d t (i + 1) (if dge (fInVibration d ! nat i) t then n + 1 else n) =
       Inr ((if dge (fInVibration d ! nat i) t then n + 1 else n) +
         int (length (filter (\<lambda>x. dge x t)
            (drop (nat (i + 1)) (take (nat (iCount d)) (fInVibration d))))))"
      using "1.IH" [OF True inb] True "1.prems" by simp
    show ?thesis
      by (subst scan_loop.simps) (simp add: True inb ih step)
  qed
qed

lemma scan_loop_all:
  assumes "0 \<le> iCount d" "iCount d \<le> int MAX_INPUT_VALUES" "wf_data d"
  shows "scan_loop d t 0 0 = Inr (int (triggered_count (fInVibration d) (nat (iCount d)) t))"
  using scan_loop_count [of 0 d t 0] assms by (simp add: triggered_count_def)

lemma scan_loop_nonpos: "iCount d \<le> 0 \<Longrightarrow> scan_loop d t 0 n = Inr n"
  by (simp add: scan_loop.simps)

section \<open>The exclusive-or swap and the reversal loop\<close>

lemma xor_char_cancel:
  "xor_char (xor_char a b) b = a"
  "xor_char b (xor_char a b) = a"
  "xor_char (xor_char a b) a = b"
  by (cases a; cases b; auto simp: xor_char_def)+

lemma xor_char_self: "xor_char a a = NUL"
  by (cases a) (simp add: xor_char_def NUL_def)

lemma xor_swap_eq:
  assumes "p1 \<noteq> p2" "p1 < length s" "p2 < length s"
  shows "xor_swap s p1 p2 = tmp_swap s p1 p2"
  using assms
  by (simp add: xor_swap_def tmp_swap_def Let_def xor_char_cancel list_update_swap [of p1 p2])

lemma tmp_swap_length [simp]: "length (tmp_swap s i j) = length s"
  by (simp add: tmp_swap_def Let_def)

lemma tmp_swap_nth:
  assumes "i < length s" "j < length s" "k < length s"
  shows "tmp_swap s i j ! k = (if k = j then s ! i else if k = i then s ! j else s ! k)"
  using assms by (simp add: tmp_swap_def Let_def nth_list_update)

lemma naive_loop_length [simp]: "length (naive_loop p1 p2 s) = length s"
  by (induction p1 p2 s rule: naive_loop.induct) (subst naive_loop.simps, simp)

lemma naive_loop_nth:
  assumes "p2 < length s" "k < length s"
  shows "naive_loop p1 p2 s ! k = (if p1 \<le> k \<and> k \<le> p2 then s ! (p1 + p2 - k) else s ! k)"
  using assms
proof (induction p1 p2 s rule: naive_loop.induct)
  case (1 p1 p2 s)
  show ?case
  proof (cases "p1 < p2")
    case False
    then show ?thesis by (subst naive_loop.simps) (auto intro: arg_cong [where f = "nth s"])
  next
    case True
    have ih: "naive_loop (p1 + 1) (p2 - 1) (tmp_swap s p1 p2) ! k =
       (if p1 + 1 \<le> k \<and> k \<le> p2 - 1 then tmp_swap s p1 p2 ! (p1 + 1 + (p2 - 1) - k)
        else tmp_swap s p1 p2 ! k)"
      using "1.IH" [OF True] "1.prems" True by simp
    have eq: "naive_loop p1 p2 s = naive_loop (p1 + 1) (p2 - 1) (tmp_swap s p1 p2)"
      using True by (subst naive_loop.simps) simp
    show ?thesis
      unfolding eq ih using True "1.prems"
      by (auto simp: tmp_swap_nth intro: arg_cong [where f = "nth s"])
  qed
qed

lemma strrev_loop_naive:
  "p2 < length s \<Longrightarrow> strrev_loop p1 p2 s = naive_loop p1 p2 s"
proof (induction p1 p2 s rule: strrev_loop.induct)
  case (1 p1 p2 s)
  show ?case
  proof (cases "p1 < p2")
    case False
    then show ?thesis by (subst strrev_loop.simps, subst naive_loop.simps) simp
  next
    case True
    have sw: "xor_swap s p1 p2 = tmp_swap s p1 p2"
      using True "1.prems" by (intro xor_swap_eq) auto
    have "strrev_loop (p1 + 1) (p2 - 1) (xor_swap s p1 p2) = naive_loop (p1 + 1) (p2 - 1) (xor_swap s p1 p2)"
      using "1.IH" [OF True] "1.prems" by (simp add: sw)
    then show ?thesis
      using True by (subst strrev_loop.simps, subst naive_loop.simps) (simp add: sw)
  qed
qed

lemma naive_loop_rev:
  "naive_loop 0 (length t - 1) (t @ r) = rev t @ r"
proof (cases t)
  case Nil
  then show ?thesis by (subst naive_loop.simps) simp
next
  case (Cons c t')
  have lt: "length t - 1 < length (t @ r)" by (simp add: Cons)
  show ?thesis
  proof (rule nth_equalityI)
    show "length (naive_loop 0 (length t - 1) (t @ r)) = length (rev t @ r)" by simp
  next
    fix k assume "k < length (naive_loop 0 (length t - 1) (t @ r))"
    then have k: "k < length (t @ r)" by simp
    have nth: "naive_loop 0 (length t - 1) (t @ r) ! k =
        (if 0 \<le> k \<and> k \<le> length t - 1 then (t @ r) ! (0 + (length t - 1) - k) else (t @ r) ! k)"
      by (rule naive_loop_nth [OF lt k])
    show "naive_loop 0 (length t - 1) (t @ r) ! k = (rev t @ r) ! k"
    proof (cases "k < length t")
      case True
      then have "k \<le> length t - 1" "length t - 1 - k < length t" "length t - 1 - k = length t - Suc k"
        by arith+
      with True show ?thesis unfolding nth by (simp add: nth_append rev_nth)
    next
      case False
      then have "\<not> k \<le> length t - 1" using Cons by simp
      with False show ?thesis unfolding nth by (simp add: nth_append)
    qed
  qed
qed

lemma takeWhile_string: "NUL \<notin> set t \<Longrightarrow> takeWhile (\<lambda>c. c \<noteq> NUL) (t @ NUL # r) = t"
  by (induction t) auto

lemma strlen_string: "NUL \<notin> set t \<Longrightarrow> strlen (t @ NUL # r) = Inr (length t)"
  by (simp add: strlen_def takeWhile_string)

lemma c_string_string: "NUL \<notin> set t \<Longrightarrow> c_string (t @ NUL # r) = t"
  by (simp add: c_string_def takeWhile_string)

lemma strrev_loop_swaps_bounds:
  "(i, j) \<in> set (strrev_loop_swaps p1 p2) \<Longrightarrow> i < j \<and> p1 \<le> i \<and> j \<le> p2 \<and> i + j = p1 + p2"
proof (induction p1 p2 rule: strrev_loop_swaps.induct)
  case (1 p1 p2)
  show ?case
  proof (cases "p1 < p2")
    case False
    with "1.prems" show ?thesis by (subst (asm) strrev_loop_swaps.simps) simp
  next
    case True
    from "1.prems" have "(i, j) = (p1, p2) \<or> (i, j) \<in> set (strrev_loop_swaps (p1 + 1) (p2 - 1))"
      by (subst (asm) strrev_loop_swaps.simps) (simp add: True)
    then show ?thesis
    proof
      assume "(i, j) = (p1, p2)"
      with True show ?thesis by simp
    next
      assume "(i, j) \<in> set (strrev_loop_swaps (p1 + 1) (p2 - 1))"
      from "1.IH" [OF True this] True show ?thesis by arith
    qed
  qed
qed

lemma strrev_loop_fold:
  "strrev_loop p1 p2 s = fold (\<lambda>(i, j) s. xor_swap s i j) (strrev_loop_swaps p1 p2) s"
proof (induction p1 p2 s rule: strrev_loop.induct)
  case (1 p1 p2 s)
  show ?case
  proof (cases "p1 < p2")
    case False
    then show ?thesis by (subst strrev_loop.simps, subst strrev_loop_swaps.simps) simp
  next
    case True
    with "1.IH" show ?thesis by (subst strrev_loop.simps, subst strrev_loop_swaps.simps) simp
  qed
qed

lemma strrev_swaps_bounds: "(i, j) \<in> set (strrev_swaps str) \<Longrightarrow> i < j"
  by (auto simp: strrev_swaps_def split: option.splits list.splits if_splits sum.splits
           dest: strrev_loop_swaps_bounds)

lemma strrev_swaps_fold:
  "strrev (Some buf) = Inr (Some buf') \<Longrightarrow>
   buf' = fold (\<lambda>(i, j) s. xor_swap s i j) (strrev_swaps (Some buf)) buf"
  by (auto simp: strrev_def strrev_swaps_def strrev_loop_fold split: list.splits if_splits sum.splits)

lemma xor_swap_same: "i < length s \<Longrightarrow> xor_swap s i i = s[i := NUL]"
  by (simp add: xor_swap_def Let_def xor_char_self)

lemma strrev_string:
  assumes "NUL \<notin> set t"
  shows "strrev (Some (t @ NUL # r)) = Inr (Some (rev t @ NUL # r))"
proof (cases t)
  case Nil
  then show ?thesis by (simp add: strrev_def)
next
  case (Cons c t')
  with assms have c: "c \<noteq> NUL" by auto
  have "strrev_loop 0 (length t - 1) (t @ NUL # r) = naive_loop 0 (length t - 1) (t @ NUL # r)"
    by (rule strrev_loop_naive) (simp add: Cons)
  then have "strrev_loop 0 (length t - 1) (t @ NUL # r) = rev t @ NUL # r"
    by (simp only: naive_loop_rev)
  then show ?thesis
    using c strlen_string [OF assms, of r] by (simp add: strrev_def Cons)
qed

lemma naive_strrev_string:
  assumes "NUL \<notin> set t"
  shows "naive_strrev (Some (t @ NUL # r)) = Inr (Some (rev t @ NUL # r))"
proof (cases t)
  case Nil
  then show ?thesis by (simp add: naive_strrev_def)
next
  case (Cons c t')
  with assms have c: "c \<noteq> NUL" by auto
  have "naive_loop 0 (length t - 1) (t @ NUL # r) = rev t @ NUL # r"
    by (simp only: naive_loop_rev)
  then show ?thesis
    using c strlen_string [OF assms, of r] by (simp add: naive_strrev_def Cons)
qed

lemma strrev_swaps_string:
  "NUL \<notin> set t \<Longrightarrow> strrev_swaps (Some (t @ NUL # r)) = strrev_loop_swaps 0 (length t - 1)"
proof (cases t)
  case Nil
  have "strrev_loop_swaps 0 (0 - 1) = []"
    by (subst strrev_loop_swaps.simps) simp
  with Nil show ?thesis by (simp add: strrev_swaps_def)
next
  case (Cons c t')
  assume nul: "NUL \<notin> set t"
  with Cons have c: "c \<noteq> NUL" by auto
  have "strrev_swaps (Some (c # (t' @ NUL # r))) = strrev_loop_swaps 0 (length t - 1)"
    using c strlen_string [OF nul, of r] by (simp add: strrev_swaps_def Cons)
  then show ?thesis by (simp add: Cons)
qed

lemma strrev_swaps_middle:
  assumes "NUL \<notin> set t" "odd (length t)" "(i, j) \<in> set (strrev_swaps (Some (t @ NUL # r)))"
  shows "i \<noteq> length t div 2 \<and> j \<noteq> length t div 2"
proof -
  from assms have "(i, j) \<in> set (strrev_loop_swaps 0 (length t - 1))"
    by (simp add: strrev_swaps_string)
  then have "i < j" "i + j = length t - 1"
    by (auto dest: strrev_loop_swaps_bounds)
  with assms(2) show ?thesis by (auto elim!: oddE)
qed

section \<open>The value and the effect of the calculation\<close>


lemma data_after_usage_eq:
  assumes "wf_data d" "0 \<le> iCount d" "iCount d \<le> int MAX_INPUT_VALUES"
  shows "data_after_usage d t = Inr (d\<lparr>iCount := iCount d + 1\<rparr>)"
  using assms by (simp add: data_after_usage_def dCalculatePercentageUsage_def scan_loop_all)





section \<open>One round of the reading loop\<close>

lemma fscanf_s_eq:
  "fscanf_s buf tok =
     (if length tok < length buf then Inr (tok @ NUL # drop (Suc (length tok)) buf)
      else Inl (String_Write_Outside (Suc (length tok))))"
  by (simp add: fscanf_s_def Suc_le_eq)

lemma store_scanned_inside:
  assumes "0 \<le> iCount d" "iCount d < int MAX_INPUT_VALUES"
  shows "store_scanned d r =
     Inr (case r of None \<Rightarrow> d\<lparr>iCount := iCount d + 1\<rparr>
          | Some v \<Rightarrow> d\<lparr>iCount := iCount d + 1,
                         fInVibration := (fInVibration d)[nat (iCount d) := v]\<rparr>)"
  using assms by (simp add: store_scanned_def Let_def split: option.splits)

lemma store_scanned_at_end:
  assumes "iCount d = int MAX_INPUT_VALUES"
  shows "store_scanned d (Some v) = Inl (Array_Write_Outside (int MAX_INPUT_VALUES))"
    and "store_scanned d None = Inr (d\<lparr>iCount := int MAX_INPUT_VALUES + 1\<rparr>)"
  using assms by (simp_all add: store_scanned_def Let_def)

lemma read_value_eq:
  assumes "NUL \<notin> set tok" "length tok < length sTmp"
  shows "read_value scan (sTmp, d) tok =
     (case store_scanned d (scan (rev tok)) of
        Inl u \<Rightarrow> Inl u
      | Inr d' \<Rightarrow> Inr (rev tok @ NUL # drop (Suc (length tok)) sTmp, d'))"
  using assms
  by (simp add: read_value_def fscanf_s_eq strrev_string c_string_string)

lemma read_value_too_long:
  assumes "length sTmp \<le> length tok"
  shows "read_value scan (sTmp, d) tok = Inl (String_Write_Outside (Suc (length tok)))"
  using assms by (simp add: read_value_def fscanf_s_eq)

lemma read_value_inside:
  assumes "NUL \<notin> set tok" "length tok < length sTmp"
    "0 \<le> iCount d" "iCount d < int MAX_INPUT_VALUES"
  shows "\<exists>sTmp' d'. read_value scan (sTmp, d) tok = Inr (sTmp', d') \<and>
     length sTmp' = length sTmp \<and> iCount d' = iCount d + 1 \<and>
     length (fInVibration d') = length (fInVibration d)"
  using assms
  by (cases "scan (rev tok)") (simp_all add: read_value_eq store_scanned_inside)

lemma read_values_inside:
  assumes "\<forall>tok \<in> set toks. NUL \<notin> set tok \<and> length tok < length sTmp"
    "0 \<le> iCount d" "iCount d + int (length toks) \<le> int MAX_INPUT_VALUES"
  shows "\<exists>sTmp' d'. read_values scan (sTmp, d) toks = Inr (sTmp', d') \<and>
     length sTmp' = length sTmp \<and> iCount d' = iCount d + int (length toks) \<and>
     length (fInVibration d') = length (fInVibration d)"
  using assms
proof (induction toks arbitrary: sTmp d)
  case Nil
  then show ?case by simp
next
  case (Cons tok toks)
  from Cons.prems obtain s1 d1 where
    one: "read_value scan (sTmp, d) tok = Inr (s1, d1)" and
    len: "length s1 = length sTmp" and cnt: "iCount d1 = iCount d + 1" and
    arr: "length (fInVibration d1) = length (fInVibration d)"
    using read_value_inside [of tok sTmp d scan] by auto
  have "\<exists>sTmp' d'. read_values scan (s1, d1) toks = Inr (sTmp', d') \<and>
     length sTmp' = length s1 \<and> iCount d' = iCount d1 + int (length toks) \<and>
     length (fInVibration d') = length (fInVibration d1)"
    using Cons.prems len cnt by (intro Cons.IH) auto
  then show ?case
    using one len cnt arr by auto
qed

lemma to_double_5_2: "to_double (5 / 2) = Finite (5 / 2)"
  by (simp add: to_double_eval)

lemmas sscanf_lf_eval =
  sscanf_lf_def is_space_def is_digit_def digits_val_def digit_val_def scale10_def
  to_double_5_2

lemma sscanf_trailing_sign: "sscanf_lf ''2.5-'' = Some (Finite (5 / 2))"
  by (simp add: sscanf_lf_eval)

section \<open>The exit paths of the program\<close>

lemma main_input_unopened:
  "main scan sTmp_entry None b = Inr \<lparr>exit_code = - 1, results_txt = None\<rparr>"
  by (simp add: main_def)

lemma main_returns_zero:
  "main scan sTmp_entry (Some toks) b = Inr r \<Longrightarrow> b \<and> exit_code r = 0"
  by (auto simp: main_def split: sum.splits if_splits prod.splits)

lemma main_output_unopened:
  "isl (main scan sTmp_entry (Some toks) False)"
  by (auto simp: main_def split: sum.splits prod.splits)

lemma main_empty_file:
  "main scan sTmp_entry (Some []) True = Inr \<lparr>exit_code = 0, results_txt = Some NaN\<rparr>"
  by (simp add: main_def dCalculatePercentageUsage_def scan_loop_nonpos double_of_int_def
        DFLT_TRIGGER_LEVEL_def)

lemma main_opened:
  "main scan sTmp_entry (Some toks) ok =
     (case read_values scan (map sTmp_entry [0..<MAX_STRING], empty_data) toks of
        Inl u \<Rightarrow> Inl u
      | Inr st \<Rightarrow>
          (case dCalculatePercentageUsage (snd st) DFLT_TRIGGER_LEVEL of
             Inl u \<Rightarrow> Inl u
           | Inr (p, d') \<Rightarrow>
               if ok then Inr \<lparr>exit_code = 0, results_txt = Some p\<rparr> else Inl Null_Stream))"
  by (simp add: main_def empty_data_def)

lemma read_one:
  "read_values sscanf_lf (map (\<lambda>i. CHR ''x'') [0..<MAX_STRING], empty_data) [''0.1''] =
     Inr (''1.0'' @ NUL # replicate 60 CHR ''x'',
          empty_data\<lparr>iCount := 1, fInVibration := (fInVibration empty_data)[0 := Finite 1]\<rparr>)"
  by (simp add: read_value_eq store_scanned_inside NUL_def MAX_STRING_def MAX_INPUT_VALUES_def
        empty_data_def sscanf_lf_def is_space_def is_digit_def digits_val_def digit_val_def
        scale10_def to_double_values map_replicate_const)

lemma usage_one:
  "dCalculatePercentageUsage
     (empty_data\<lparr>iCount := 1, fInVibration := (fInVibration empty_data)[0 := Finite 1]\<rparr>)
     DFLT_TRIGGER_LEVEL =
   Inr (Finite 0,
        empty_data\<lparr>iCount := 2, fInVibration := (fInVibration empty_data)[0 := Finite 1]\<rparr>)"
  by (simp add: dCalculatePercentageUsage_def scan_loop.simps empty_data_def MAX_INPUT_VALUES_def
        DFLT_TRIGGER_LEVEL_def double_of_int_def to_double_values)

lemma read_four:
  "read_values sscanf_lf (map (\<lambda>i. CHR ''x'') [0..<MAX_STRING], empty_data)
     [''0.1'', ''0.02'', ''0.51'', ''0.5''] =
     Inr (''5.0'' @ NUL # NUL # replicate 59 CHR ''x'',
          empty_data\<lparr>iCount := 4,
            fInVibration := (fInVibration empty_data)
              [0 := Finite 1, 1 := Finite 20, 2 := Finite 15, 3 := Finite 5]\<rparr>)"
  by (simp add: read_value_eq store_scanned_inside NUL_def MAX_STRING_def MAX_INPUT_VALUES_def
        empty_data_def sscanf_lf_def is_space_def is_digit_def digits_val_def digit_val_def
        scale10_def to_double_values map_replicate_const)

lemma main_sample_run:
  "main sscanf_lf (\<lambda>i. CHR ''x'') (Some [''0.1'', ''0.02'', ''0.51'', ''0.5'']) True =
     Inr \<lparr>exit_code = 0, results_txt = Some (Finite 50)\<rparr>"
  by (simp add: main_opened read_four del: read_values.simps)
     (simp add: dCalculatePercentageUsage_def scan_loop.simps empty_data_def MAX_INPUT_VALUES_def
        DFLT_TRIGGER_LEVEL_def double_of_int_def to_double_values)

section \<open>The properties of the specification\<close>

text \<open>
  C1. The calculation is stated to be read-only: count and readings unchanged by a
  call, so that two calls in a row on the same structure and trigger level return the
  same value. The division of \<^verbatim>\<open>dCalculatePercentageUsage\<close> reads the count through
  \<^verbatim>\<open>iCount++\<close>. On the structure with the one reading 10.0 and the trigger level
  10.0, the first call returns 100 and leaves the count at 2; the second call then scans
  two elements, returns 50 and leaves the count at 3. The readings are unchanged.
\<close>

theorem usage_changes_count:
  "dCalculatePercentageUsage one_reading (Finite 10) = Inr (Finite 100, one_reading\<lparr>iCount := 2\<rparr>) \<and>
   dCalculatePercentageUsage (one_reading\<lparr>iCount := 2\<rparr>) (Finite 10) =
     Inr (Finite 50, one_reading\<lparr>iCount := 3\<rparr>)"
  by (simp add: dCalculatePercentageUsage_def scan_loop.simps one_reading_def double_of_int_def
       MAX_INPUT_VALUES_def to_double_eval)

text \<open>
  C2. For a structure whose count is 0 the calculation is stated to fail with an
  error and never to give a NaN. The function has no test of the count and no error
  result: the scan reads no element, the counter stays 0, and the value returned is
  what \<^verbatim>\<open>100.0 * (0.0 / 0)\<close> evaluates to, a NaN. The theorem is this statement for
  every structure with count 0 and every trigger level; it is followed by its instance
  at the cleared structure and by the full result of the call there, a returned NaN.
\<close>

theorem usage_of_empty_is_nan:
  "iCount d = 0 \<Longrightarrow> usage_returned d t = Inr NaN"
  by (simp add: usage_returned_def dCalculatePercentageUsage_def scan_loop_nonpos double_of_int_def)

theorem usage_of_empty_is_nan_witness:
  "iCount empty_data = 0 \<and> usage_returned empty_data (Finite 10) = Inr NaN"
  using usage_of_empty_is_nan [of empty_data "Finite 10"] by (simp add: empty_data_def)

theorem usage_of_empty_counterexample:
  "dCalculatePercentageUsage empty_data (Finite 10) = Inr (NaN, empty_data\<lparr>iCount := 1\<rparr>)"
  by (simp add: dCalculatePercentageUsage_def scan_loop_nonpos double_of_int_def empty_data_def)

text \<open>
  C3. Appending a value while the count is at least 0 and below the capacity 255
  stores the value at the index count, changes no other element and increments the
  count by one. At a count equal to the capacity the append is stated to fail with
  a capacity error, keeping array and count; the statement that stores has no test of
  the count: the store is directed at index 255, outside the array, which C leaves
  undefined, and no error is reported. The theorem is followed by its instances at a
  structure with three readings and at a full one, and by the two results at the full
  structure: the store outside the array when the token converts, and the count 256
  when it does not.
\<close>

theorem append_without_capacity_check:
  "(wf_data d \<and> 0 \<le> iCount d \<and> iCount d < int MAX_INPUT_VALUES \<longrightarrow>
      store_scanned d (Some v) =
        Inr (d\<lparr>iCount := iCount d + 1, fInVibration := (fInVibration d)[nat (iCount d) := v]\<rparr>) \<and>
      (fInVibration d)[nat (iCount d) := v] ! nat (iCount d) = v \<and>
      (\<forall>k. k \<noteq> nat (iCount d) \<longrightarrow>
         (fInVibration d)[nat (iCount d) := v] ! k = fInVibration d ! k)) \<and>
   (iCount d = int MAX_INPUT_VALUES \<longrightarrow>
      store_scanned d (Some v) = Inl (Array_Write_Outside 255))"
  by (auto simp: store_scanned_inside store_scanned_at_end wf_data_def MAX_INPUT_VALUES_def)

theorem append_without_capacity_check_witness:
  "wf_data three_readings \<and> 0 \<le> iCount three_readings \<and> iCount three_readings < int MAX_INPUT_VALUES \<and>
   store_scanned three_readings (Some (Finite 7)) =
     Inr (three_readings\<lparr>iCount := 4,
            fInVibration := (fInVibration three_readings)[3 := Finite 7]\<rparr>) \<and>
   (fInVibration three_readings)[3 := Finite 7] ! 3 = Finite 7 \<and>
   iCount full_data = int MAX_INPUT_VALUES \<and>
   store_scanned full_data (Some (Finite 7)) = Inl (Array_Write_Outside 255)"
  using append_without_capacity_check [of three_readings "Finite 7"]
        append_without_capacity_check [of full_data "Finite 7"]
  by (simp add: three_readings_def full_data_def wf_data_def MAX_INPUT_VALUES_def)

theorem append_at_capacity_counterexample:
  "iCount full_data = 255 \<and>
   store_scanned full_data (Some (Finite 7)) = Inl (Array_Write_Outside 255) \<and>
   store_scanned full_data None = Inr (full_data\<lparr>iCount := 256\<rparr>)"
  by (simp add: store_scanned_def full_data_def MAX_INPUT_VALUES_def)

text \<open>
  C4. A token whose reversal is not a floating-point literal is stated to raise a
  decode error and to store nothing. The loop has no such error. For a token without
  NUL that fits the buffer, and a count inside the array, one round leaves the reversed
  token in the buffer, increments the count, and stores what the conversion of the
  reversed token gives, if it gives a value; if it gives none, the array is unchanged.
  The conversion reads a number from the start of its input and stops at the first
  character that cannot continue it, so the token \<open>-5.2\<close>, reversed to \<open>2.5-\<close>, is
  stored as 2.5. The theorem is followed by its instances at the tokens \<open>-5.2\<close> and
  \<open>cba\<close> and by the round for \<open>-5.2\<close> evaluated on its own.
\<close>

theorem decode_without_error:
  "(NUL \<notin> set tok \<and> length tok < length sTmp \<and> 0 \<le> iCount d \<and> iCount d < int MAX_INPUT_VALUES \<longrightarrow>
      read_value scan (sTmp, d) tok =
        Inr (rev tok @ NUL # drop (Suc (length tok)) sTmp,
             case scan (rev tok) of
               None \<Rightarrow> d\<lparr>iCount := iCount d + 1\<rparr>
             | Some v \<Rightarrow> d\<lparr>iCount := iCount d + 1,
                            fInVibration := (fInVibration d)[nat (iCount d) := v]\<rparr>)) \<and>
   rev ''-5.2'' = ''2.5-'' \<and> sscanf_lf ''2.5-'' = Some (Finite (5 / 2))"
  by (simp add: read_value_eq store_scanned_inside sscanf_trailing_sign)

theorem decode_without_error_witness:
  "NUL \<notin> set ''-5.2'' \<and> length ''-5.2'' < length (replicate MAX_STRING CHR ''x'') \<and>
   0 \<le> iCount empty_data \<and> iCount empty_data < int MAX_INPUT_VALUES \<and>
   read_value sscanf_lf (replicate MAX_STRING CHR ''x'', empty_data) ''-5.2'' =
     Inr (''2.5-'' @ NUL # replicate 59 CHR ''x'',
          empty_data\<lparr>iCount := 1, fInVibration := (fInVibration empty_data)[0 := Finite (5 / 2)]\<rparr>) \<and>
   read_value sscanf_lf (replicate MAX_STRING CHR ''x'', empty_data) ''cba'' =
     Inr (''abc'' @ NUL # replicate 60 CHR ''x'', empty_data\<lparr>iCount := 1\<rparr>)"
  using decode_without_error [of "''-5.2''" "replicate MAX_STRING CHR ''x''" empty_data sscanf_lf]
        decode_without_error [of "''cba''" "replicate MAX_STRING CHR ''x''" empty_data sscanf_lf]
  by (simp add: NUL_def MAX_STRING_def MAX_INPUT_VALUES_def empty_data_def sscanf_lf_eval)

theorem decode_trailing_sign_counterexample:
  "read_value sscanf_lf (replicate MAX_STRING CHR ''x'', empty_data) ''-5.2'' =
     Inr (''2.5-'' @ NUL # replicate 59 CHR ''x'',
          empty_data\<lparr>iCount := 1, fInVibration := (fInVibration empty_data)[0 := Finite (5 / 2)]\<rparr>)"
  using read_value_eq [of "''-5.2''" "replicate MAX_STRING CHR ''x''" sscanf_lf empty_data]
  by (simp add: NUL_def MAX_STRING_def MAX_INPUT_VALUES_def empty_data_def sscanf_lf_eval
        store_scanned_def)

text \<open>
  C5. The run is stated to end with exit code 0 on success and with a non-zero exit
  code when either file cannot be opened. When the input file cannot be opened
  \<^verbatim>\<open>main\<close> returns -1, and a run that reaches the end returns 0. The test after
  opening the output file reads \<^verbatim>\<open>if(!pInFile)\<close> again, so a null output stream is
  not noticed: with an input file holding the token \<open>0.1\<close> and an output file that
  cannot be opened, the run reaches \<^verbatim>\<open>fprintf(pOutFile, ...)\<close> with the null
  stream, which C leaves undefined, and returns no exit code.
\<close>

theorem output_open_failure_unnoticed:
  "main sscanf_lf (\<lambda>i. CHR ''x'') (Some [''0.1'']) False = Inl Null_Stream \<and>
   main sscanf_lf (\<lambda>i. CHR ''x'') (Some [''0.1'']) True =
     Inr \<lparr>exit_code = 0, results_txt = Some (Finite 0)\<rparr> \<and>
   main sscanf_lf (\<lambda>i. CHR ''x'') None True = Inr \<lparr>exit_code = - 1, results_txt = None\<rparr>"
  by (simp add: main_opened read_one usage_one main_input_unopened del: read_values.simps)




text \<open>
  C7. Reversing twice gives the token back: for every string \<open>t\<close> without NUL
  (every ASCII token without white space is one), held in a buffer before a NUL and
  whatever follows it, two calls of \<^verbatim>\<open>strrev\<close> leave the buffer as it was.
\<close>

theorem strrev_involution:
  "NUL \<notin> set t \<Longrightarrow> strrev_twice (Some (t @ NUL # r)) = Inr (Some (t @ NUL # r))"
  by (simp add: strrev_twice_def strrev_string)

theorem strrev_involution_witness:
  "NUL \<notin> set ''52.0'' \<and> strrev (Some (''52.0'' @ NUL # ''xy'')) = Inr (Some (''0.25'' @ NUL # ''xy''))
   \<and> strrev_twice (Some (''52.0'' @ NUL # ''xy'')) = Inr (Some (''52.0'' @ NUL # ''xy''))"
  using strrev_involution [of "''52.0''" "''xy''"] strrev_string [of "''52.0''" "''xy''"]
  by (simp add: NUL_def)

text \<open>
  C8. A token longer than 63 characters is stated to be rejected, with no write
  past the end of the buffer. The call that reads a token has no test of its length:
  into a buffer of \<open>MAX_STRING\<close> characters a token of at most 63 characters is stored
  whole with its NUL, and for a longer token all its characters and the NUL are
  written, past the end of the buffer, which C leaves undefined; the token is neither
  rejected nor cut. The theorem is followed by its instances at tokens of 63 and of
  64 characters and by the round for a token of 64 characters evaluated on its own.
\<close>

theorem token_length_unchecked:
  "length sTmp = MAX_STRING \<longrightarrow>
     fscanf_s sTmp tok =
       (if length tok \<le> 63 then Inr (tok @ NUL # drop (length tok + 1) sTmp)
        else Inl (String_Write_Outside (length tok + 1))) \<and>
     (63 < length tok \<longrightarrow>
        read_value scan (sTmp, d) tok = Inl (String_Write_Outside (length tok + 1)))"
  by (auto simp: fscanf_s_def read_value_too_long MAX_STRING_def)

theorem token_length_unchecked_witness:
  "length (replicate 64 CHR ''x'') = MAX_STRING \<and>
   fscanf_s (replicate 64 CHR ''x'') (replicate 63 CHR ''1'') = Inr (replicate 63 CHR ''1'' @ [NUL]) \<and>
   fscanf_s (replicate 64 CHR ''x'') (replicate 64 CHR ''1'') = Inl (String_Write_Outside 65) \<and>
   read_value sscanf_lf (replicate 64 CHR ''x'', empty_data) (replicate 64 CHR ''1'') =
     Inl (String_Write_Outside 65)"
  using token_length_unchecked [of "replicate 64 CHR ''x''" "replicate 63 CHR ''1''" sscanf_lf empty_data]
        token_length_unchecked [of "replicate 64 CHR ''x''" "replicate 64 CHR ''1''" sscanf_lf empty_data]
  by (simp add: MAX_STRING_def)

theorem token_too_long_counterexample:
  "length (replicate 64 CHR ''1'') = 64 \<and>
   read_value sscanf_lf (replicate MAX_STRING CHR ''x'', empty_data) (replicate 64 CHR ''1'') =
     Inl (String_Write_Outside 65)"
  by (simp add: read_value_def fscanf_s_def MAX_STRING_def)

text \<open>
  C9. \<^verbatim>\<open>strrev\<close> returns a null pointer as it is, and a buffer that starts with NUL
  as it is, also when the buffer has no second character to read; in both cases no
  swap is made. A string of one character is returned unchanged, with no swap. Every
  swap the loop makes is at two different offsets, and the buffer returned is the
  buffer given with exactly these swaps applied, so no character is ever exchanged
  with itself (which would set it to NUL, see \<open>xor_swap_same\<close>).
\<close>

theorem strrev_trivial_cases:
  "strrev None = Inr None \<and> strrev_swaps None = [] \<and>
   strrev (Some (NUL # r)) = Inr (Some (NUL # r)) \<and> strrev_swaps (Some (NUL # r)) = [] \<and>
   (c \<noteq> NUL \<longrightarrow> strrev (Some (c # NUL # r)) = Inr (Some (c # NUL # r)) \<and>
      strrev_swaps (Some (c # NUL # r)) = []) \<and>
   (\<forall>(i, j) \<in> set (strrev_swaps str). i \<noteq> j) \<and>
   (\<forall>buf buf'. strrev (Some buf) = Inr (Some buf') \<longrightarrow>
      buf' = fold (\<lambda>(i, j) s. xor_swap s i j) (strrev_swaps (Some buf)) buf)"
proof -
  have one: "strrev (Some (c # NUL # r)) = Inr (Some (c # NUL # r))" if "c \<noteq> NUL"
    using that strrev_string [of "[c]" r] by simp
  have one_swaps: "strrev_swaps (Some (c # NUL # r)) = []" if "c \<noteq> NUL"
    using that strrev_swaps_string [of "[c]" r] by (simp add: strrev_loop_swaps.simps)
  have distinct: "\<forall>(i, j) \<in> set (strrev_swaps str). i \<noteq> j"
    using strrev_swaps_bounds [of _ _ str] by fastforce
  show ?thesis
    using one one_swaps distinct strrev_swaps_fold
    by (simp add: strrev_def strrev_swaps_def)
qed

theorem strrev_trivial_cases_witness:
  "strrev None = Inr None \<and> strrev (Some [NUL]) = Inr (Some [NUL]) \<and>
   strrev (Some (CHR ''7'' # NUL # ''ab'')) = Inr (Some (CHR ''7'' # NUL # ''ab'')) \<and>
   strrev_swaps (Some (CHR ''7'' # NUL # ''ab'')) = [] \<and>
   CHR ''7'' \<noteq> NUL \<and>
   strrev_swaps (Some (''abcd'' @ [NUL])) = [(0, 3), (1, 2)] \<and>
   strrev (Some (''abcd'' @ [NUL])) = Inr (Some (''dcba'' @ [NUL])) \<and>
   fold (\<lambda>(i, j) s. xor_swap s i j) [(0, 3), (1, 2)] (''abcd'' @ [NUL]) = ''dcba'' @ [NUL]"
proof -
  have sw: "strrev_swaps (Some (''abcd'' @ [NUL])) = [(0, 3), (1, 2)]"
    by (simp add: strrev_swaps_def strlen_def NUL_def strrev_loop_swaps.simps)
  have rv: "strrev (Some (''abcd'' @ [NUL])) = Inr (Some (''dcba'' @ [NUL]))"
    using strrev_string [of "''abcd''" "[]"] by (simp add: NUL_def)
  have c: "CHR ''7'' \<noteq> NUL" by (simp add: NUL_def)
  from strrev_trivial_cases [of "''ab''" "CHR ''7''" "Some (''abcd'' @ [NUL])"]
  have one: "strrev (Some (CHR ''7'' # NUL # ''ab'')) = Inr (Some (CHR ''7'' # NUL # ''ab'')) \<and>
      strrev_swaps (Some (CHR ''7'' # NUL # ''ab'')) = []"
    and fold: "\<And>buf buf'. strrev (Some buf) = Inr (Some buf') \<Longrightarrow>
      buf' = fold (\<lambda>(i, j) s. xor_swap s i j) (strrev_swaps (Some buf)) buf"
    using c by blast+
  from fold [OF rv] have folded: "fold (\<lambda>(i, j) s. xor_swap s i j) [(0, 3), (1, 2)] (''abcd'' @ [NUL]) = ''dcba'' @ [NUL]"
    by (simp only: sw)
  from strrev_trivial_cases [of "[]"]
  have triv: "strrev None = Inr None \<and> strrev (Some [NUL]) = Inr (Some [NUL])"
    by blast
  with one sw rv c folded show ?thesis by blast
qed

text \<open>
  C10. For every string \<open>t\<close> without NUL in a buffer, the reversal with the
  exclusive-or swap returns what the reversal with a temporary variable returns, and
  that is the buffer with \<open>t\<close> reversed and the rest unchanged. When the length of
  \<open>t\<close> is odd, the middle character is at its place and no swap touches it.
\<close>

theorem strrev_refines_naive:
  "NUL \<notin> set t \<longrightarrow>
     strrev (Some (t @ NUL # r)) = naive_strrev (Some (t @ NUL # r)) \<and>
     strrev (Some (t @ NUL # r)) = Inr (Some (rev t @ NUL # r)) \<and>
     (odd (length t) \<longrightarrow>
        rev t ! (length t div 2) = t ! (length t div 2) \<and>
        (\<forall>(i, j) \<in> set (strrev_swaps (Some (t @ NUL # r))).
           i \<noteq> length t div 2 \<and> j \<noteq> length t div 2))"
proof
  assume nul: "NUL \<notin> set t"
  have mid: "rev t ! (length t div 2) = t ! (length t div 2)" if "odd (length t)"
  proof -
    from that have "length t div 2 < length t" "length t - Suc (length t div 2) = length t div 2"
      by (auto elim!: oddE)
    then show ?thesis by (simp add: rev_nth)
  qed
  have untouched: "\<forall>(i, j) \<in> set (strrev_swaps (Some (t @ NUL # r))).
      i \<noteq> length t div 2 \<and> j \<noteq> length t div 2" if "odd (length t)"
    using strrev_swaps_middle [OF nul that] by blast
  show "strrev (Some (t @ NUL # r)) = naive_strrev (Some (t @ NUL # r)) \<and>
     strrev (Some (t @ NUL # r)) = Inr (Some (rev t @ NUL # r)) \<and>
     (odd (length t) \<longrightarrow>
        rev t ! (length t div 2) = t ! (length t div 2) \<and>
        (\<forall>(i, j) \<in> set (strrev_swaps (Some (t @ NUL # r))).
           i \<noteq> length t div 2 \<and> j \<noteq> length t div 2))"
    using mid untouched by (simp add: strrev_string [OF nul] naive_strrev_string [OF nul])
qed

theorem strrev_refines_naive_witness:
  "NUL \<notin> set ''1.5'' \<and> odd (length ''1.5'') \<and>
   strrev (Some (''1.5'' @ NUL # ''zz'')) = naive_strrev (Some (''1.5'' @ NUL # ''zz'')) \<and>
   strrev (Some (''1.5'' @ NUL # ''zz'')) = Inr (Some (''5.1'' @ NUL # ''zz'')) \<and>
   ''5.1'' ! 1 = ''1.5'' ! 1 \<and>
   strrev_swaps (Some (''1.5'' @ NUL # ''zz'')) = [(0, 2)]"
proof -
  have sw: "strrev_swaps (Some (''1.5'' @ NUL # ''zz'')) = [(0, 2)]"
    by (simp add: strrev_swaps_def strlen_def NUL_def strrev_loop_swaps.simps)
  show ?thesis
    using strrev_refines_naive [of "''1.5''" "''zz''"] sw by (auto simp: NUL_def)
qed

end
